theory Spec2Isabelle
  imports Main
begin

unbundle bit_operations_syntax

section \<open>The covert-channel client of \<open>stego_client.py\<close>\<close>

text \<open>
  Python integers are unbounded, so every integer of the client is an \<open>int\<close>; \<open><<\<close> is
  \<open>push_bit\<close>, \<open>|\<close> is \<open>OR\<close>, \<open>&\<close> is \<open>AND\<close> and \<open>~\<close> is \<open>NOT\<close> on \<open>int\<close>
  (two's complement of unbounded width, as in Python). A \<open>str\<close> is its list of code
  points, a \<open>bytes\<close> object a list of integers. Logging has no effect on the protocol and
  is left out, except where building the log line can raise.
\<close>

subsection \<open>Constants imported from \<open>session_info\<close>\<close>

text \<open>
  The module \<open>session_info\<close> is not part of the sources at hand. The values the protocol
  treats as opaque (the magic byte, the CRC function, the service port and the flag bits)
  are parameters of the model.
\<close>

record session_info =
  MAGIC_SEQ :: int
  CRC8_FUNC :: "int list \<Rightarrow> int"
  PORT_HTTP :: int
  FLAG_SYN :: int
  FLAG_ACK :: int
  FLAG_PSH :: int

definition BYTE_LEN_IN_BITS :: nat where
  \<comment> \<open>Modelled from the spec: \<open>session_info.BYTE_LEN_IN_BITS\<close> is missing; the message
      length in bits is the byte count times 8.\<close>
  "BYTE_LEN_IN_BITS = 8"

definition MAGIC_LEN_BYTE :: nat where
  \<comment> \<open>Modelled from the spec: \<open>session_info.MAGIC_LEN_BYTE\<close> is missing; the header layout
      is \<open>magic:8\<close>, that is one byte.\<close>
  "MAGIC_LEN_BYTE = 1"

definition MSG_LEN_BYTE :: nat where
  \<comment> \<open>Modelled from the spec: \<open>session_info.MSG_LEN_BYTE\<close> is missing; the header layout
      is \<open>length:16\<close>, that is two bytes.\<close>
  "MSG_LEN_BYTE = 2"

definition CRC_LEN_BYTE :: nat where
  \<comment> \<open>Modelled from the spec: \<open>session_info.CRC_LEN_BYTE\<close> is missing; the header layout
      is \<open>checksum:8\<close>, that is one byte.\<close>
  "CRC_LEN_BYTE = 1"

definition MAX_MSG_SIZE :: int where
  "MAX_MSG_SIZE = push_bit 16 1 - 1"

definition LSB_MASK :: int where
  "LSB_MASK = NOT 1"

subsection \<open>Library functions the client calls\<close>

datatype exn = UnicodeEncodeError | OverflowError | IndexError | ValueError

type_synonym pystr = "nat list"
type_synonym pybytes = "int list"

text \<open>\<open>str.encode("utf-8")\<close>: one to four bytes per code point; a lone surrogate raises.\<close>

definition utf8_char :: "nat \<Rightarrow> exn + pybytes" where
  "utf8_char c =
     (if c < 0x80 then Inr [int c]
      else if c < 0x800 then Inr [0xC0 + int (c div 64), 0x80 + int (c mod 64)]
      else if 0xD800 \<le> c \<and> c \<le> 0xDFFF then Inl UnicodeEncodeError
      else if c < 0x10000 then
        Inr [0xE0 + int (c div 4096), 0x80 + int (c div 64 mod 64), 0x80 + int (c mod 64)]
      else
        Inr [0xF0 + int (c div 262144), 0x80 + int (c div 4096 mod 64),
             0x80 + int (c div 64 mod 64), 0x80 + int (c mod 64)])"

fun encode_utf8 :: "pystr \<Rightarrow> exn + pybytes" where
  "encode_utf8 [] = Inr []"
| "encode_utf8 (c # cs) =
     (case utf8_char c of
        Inl e \<Rightarrow> Inl e
      | Inr bs \<Rightarrow> (case encode_utf8 cs of Inl e \<Rightarrow> Inl e | Inr rest \<Rightarrow> Inr (bs @ rest)))"

text \<open>\<open>int.to_bytes(length, "big")\<close>: raises on a negative or too large integer.\<close>

definition to_bytes :: "int \<Rightarrow> nat \<Rightarrow> exn + pybytes" where
  "to_bytes n len =
     (if n < 0 \<or> 256 ^ len \<le> n then Inl OverflowError
      else Inr (map (\<lambda>k. n div 256 ^ (len - 1 - k) mod 256) [0..<len]))"

text \<open>
  \<open>bitarray.util.int2ba\<close> (unsigned) raises on a negative integer. The client calls it
  only inside log lines, which are formatted whatever the log level is.
\<close>

definition int2ba_raises :: "int \<Rightarrow> bool" where
  "int2ba_raises n = (n < 0)"

text \<open>
  \<open>bitarray.frombytes\<close> on an empty big-endian bitarray, then iteration: the bits of each
  byte from the most significant one down, as integers 0 and 1.
\<close>

definition byte_bits :: "int \<Rightarrow> int list" where
  "byte_bits b = map (\<lambda>k. b div 2 ^ (7 - k) mod 2) [0..<8]"

definition frombytes :: "pybytes \<Rightarrow> int list" where
  "frombytes bs = concat (map byte_bits bs)"

text \<open>
  \<open>random.randrange(start, stop)\<close> returns one of \<open>start, ..., stop - 1\<close>; the random
  source is the natural number \<open>r\<close>, and every value of the range is returned for some \<open>r\<close>
  (\<open>randrange_onto\<close> below). On an empty range Python raises; the client calls it on
  49152 and 65535 only.
\<close>

definition randrange :: "int \<Rightarrow> int \<Rightarrow> nat \<Rightarrow> int" where
  "randrange start stop r = start + int (r mod nat (stop - start))"

subsection \<open>Packets\<close>

record ip_layer =
  src :: string
  dst :: string

record tcp_layer =
  sport :: int
  dport :: int
  seq :: int
  ack :: int
  flags :: int

text \<open>A scapy packet may or may not have an IP and a TCP layer (\<open>haslayer\<close>).\<close>

record packet =
  IP :: "ip_layer option"
  TCP :: "tcp_layer option"

definition sniff :: "(packet \<Rightarrow> bool) \<Rightarrow> nat \<Rightarrow> packet list \<Rightarrow> packet list" where
  \<comment> \<open>\<open>sniff(lfilter, count, timeout)\<close>: of the packets that arrive before the timeout, in
      order of arrival, the first \<open>count\<close> that pass the filter.\<close>
  "sniff lfilter count arrived = take count (filter lfilter arrived)"

text \<open>
  The sequence and acknowledgment numbers of a TCP header are 32-bit fields. scapy's
  \<open>send\<close> builds the packet before it transmits it, and a \<open>seq\<close> or an \<open>ack\<close> outside
  \<open>[0, 2 ^ 32)\<close> makes it raise \<open>ValueError\<close>: nothing is transmitted then. The ports and
  flags the client writes are taken to fit their fields.
\<close>

definition seq32 :: "int \<Rightarrow> bool" where
  "seq32 q \<longleftrightarrow> 0 \<le> q \<and> q < 2 ^ 32"

definition send_raises :: "packet \<Rightarrow> bool" where
  "send_raises p =
     (case TCP p of None \<Rightarrow> False | Some t \<Rightarrow> \<not> seq32 (seq t) \<or> \<not> seq32 (ack t))"

subsection \<open>The client\<close>

text \<open>The fields of \<open>StegoClient\<close> that the protocol reads, once \<open>_seq\<close> is assigned.\<close>

record StegoClient =
  self_curr_port :: int
  self_clt :: string
  self_srv :: string
  self_seq :: int

text \<open>What the client does to the outside world, in order.\<close>

datatype event =
    SocketCreate
  | SetReuseAddr
  | Bind string int bool
  | Close
  | Send packet

definition send :: "packet \<Rightarrow> exn + event list" where
  "send p = (if send_raises p then Inl ValueError else Inr [Send p])"

text \<open>
  What the outside world decides: the random source, whether \<open>bind\<close> succeeds, and the
  packets that arrive during the three seconds of \<open>sniff\<close>.
\<close>

record env =
  rnd :: nat
  bind_ok :: bool
  arrived :: "packet list"

definition build_init_seq :: "session_info \<Rightarrow> pystr \<Rightarrow> exn + int option" where
  "build_init_seq si msg =
     (case encode_utf8 msg of
        Inl e \<Rightarrow> Inl e
      | Inr bs \<Rightarrow>
          let msg_len_in_bits = int (length bs) * int BYTE_LEN_IN_BITS in
          if msg_len_in_bits > MAX_MSG_SIZE then Inr None
          else
            let magic_masked = push_bit (MSG_LEN_BYTE * BYTE_LEN_IN_BITS) (MAGIC_SEQ si) in
            if int2ba_raises magic_masked \<or> int2ba_raises (MAGIC_SEQ si) then Inl OverflowError
            else
              let base_seq = magic_masked OR msg_len_in_bits in
              (case to_bytes base_seq (MSG_LEN_BYTE + MAGIC_LEN_BYTE) of
                 Inl e \<Rightarrow> Inl e
               | Inr prefix_bytes \<Rightarrow>
                   let crc_int = CRC8_FUNC si prefix_bytes in
                   if int2ba_raises crc_int then Inl OverflowError
                   else
                     let full_seq = push_bit (CRC_LEN_BYTE * BYTE_LEN_IN_BITS) base_seq OR crc_int in
                     if int2ba_raises full_seq then Inl OverflowError
                     else Inr (Some full_seq)))"

definition is_synack_reply :: "session_info \<Rightarrow> StegoClient \<Rightarrow> packet \<Rightarrow> bool" where
  "is_synack_reply si self p =
     (case TCP p of
        None \<Rightarrow> False
      | Some t \<Rightarrow>
          (case IP p of
             None \<Rightarrow> False
           | Some i \<Rightarrow>
               src i = self_srv self
               \<and> dst i = self_clt self
               \<and> sport t = PORT_HTTP si
               \<and> dport t = self_curr_port self
               \<and> flags t = (FLAG_SYN si OR FLAG_ACK si)
               \<and> ack t = self_seq self + 1))"

definition mk_packet :: "string \<Rightarrow> string \<Rightarrow> tcp_layer \<Rightarrow> packet" where
  \<comment> \<open>\<open>IP(src=..., dst=...) / tcp_l\<close>\<close>
  "mk_packet s d tcp_l = \<lparr>IP = Some \<lparr>src = s, dst = d\<rparr>, TCP = Some tcp_l\<rparr>"

definition receive_init_syn_ack ::
  "session_info \<Rightarrow> env \<Rightarrow> StegoClient \<Rightarrow> exn + (bool \<times> StegoClient \<times> event list)" where
  "receive_init_syn_ack si e self =
     (case sniff (is_synack_reply si self) 1 (arrived e) of
        [] \<Rightarrow> Inr (False, self, [])
      | pkt # _ \<Rightarrow>
          (case TCP pkt of
             None \<Rightarrow> Inl IndexError
           | Some pt \<Rightarrow>
               let self' = self\<lparr>self_seq := self_seq self + 1\<rparr>;
                   tcp_l = \<lparr>sport = self_curr_port self', dport = PORT_HTTP si,
                            seq = self_seq self', ack = seq pt + 1, flags = FLAG_ACK si\<rparr>;
                   ack_pkt = mk_packet (self_clt self') (self_srv self') tcp_l
               in (case send ack_pkt of
                     Inl x \<Rightarrow> Inl x
                   | Inr evs \<Rightarrow> Inr (True, self', evs))))"

text \<open>
  The loop \<open>for i, bit in enumerate(bits_seq)\<close>, on the list of pairs it runs through
  (the source's \<open>bit\<close> is \<open>b\<close> here). It returns the client, the events and the
  exception that ended it, if any: when \<open>send\<close> raises, the bits that remain are not sent.
\<close>

fun transmit ::
  "session_info \<Rightarrow> StegoClient \<Rightarrow> (nat \<times> int) list \<Rightarrow> StegoClient \<times> event list \<times> exn option" where
  "transmit si self [] = (self, [], None)"
| "transmit si self ((i, b) # rest) =
     (let s1 = self_seq self + int i * 2;
          s2 = (if b = 1 then s1 OR b else s1 AND NOT 1);
          self' = self\<lparr>self_seq := s2\<rparr>;
          tcp_l = \<lparr>sport = self_curr_port self', dport = PORT_HTTP si, seq = self_seq self',
                   ack = 0, flags = FLAG_PSH si OR FLAG_ACK si\<rparr>;
          init_pkt = mk_packet (self_clt self') (self_srv self') tcp_l
      in (case send init_pkt of
            Inl x \<Rightarrow> (self', [], Some x)
          | Inr ev \<Rightarrow>
              let (self'', evs, x) = transmit si self' rest
              in (self'', ev @ evs, x)))"

text \<open>
  \<open>send_stego_msg\<close>: the trace of events, and the exception that escapes, if any; an
  exception leaves the function before \<open>close\<close>. A scapy \<open>TCP(...)\<close> built without
  \<open>ack\<close> has \<open>ack = 0\<close>.
\<close>

definition send_stego_msg ::
  "session_info \<Rightarrow> env \<Rightarrow> pystr \<Rightarrow> string \<Rightarrow> string \<Rightarrow> event list \<times> exn option" where
  "send_stego_msg si e msg clt_ip srv_ip =
     (let curr_port = randrange 49152 65535 (rnd e);
          ev0 = [SocketCreate, SetReuseAddr, Bind clt_ip curr_port (bind_ok e)]
      in
      if \<not> bind_ok e then (ev0 @ [Close], None)
      else
        (case build_init_seq si msg of
           Inl x \<Rightarrow> (ev0, Some x)
         | Inr None \<Rightarrow> (ev0 @ [Close], None)
         | Inr (Some init_seq) \<Rightarrow>
             let self = \<lparr>self_curr_port = curr_port, self_clt = clt_ip, self_srv = srv_ip,
                         self_seq = init_seq\<rparr>;
                 tcp_l = \<lparr>sport = self_curr_port self, dport = PORT_HTTP si, seq = self_seq self,
                          ack = 0, flags = FLAG_SYN si\<rparr>;
                 init_pkt = mk_packet (self_clt self) (self_srv self) tcp_l
             in
             (case send init_pkt of
                Inl x \<Rightarrow> (ev0, Some x)
              | Inr ev \<Rightarrow>
                  let ev1 = ev0 @ ev in
                  (case receive_init_syn_ack si e self of
                     Inl x \<Rightarrow> (ev1, Some x)
                   | Inr (False, _, _) \<Rightarrow> (ev1 @ [Close], None)
                   | Inr (True, self1, ev2) \<Rightarrow>
                       (case encode_utf8 msg of
                          Inl x \<Rightarrow> (ev1 @ ev2, Some x)
                        | Inr bs \<Rightarrow>
                            let bits_seq = frombytes bs;
                                (self2, ev3, x) = transmit si self1 (enumerate 0 bits_seq)
                            in (case x of
                                  Some x' \<Rightarrow> (ev1 @ ev2 @ ev3, Some x')
                                | None \<Rightarrow> (ev1 @ ev2 @ ev3 @ [Close], None)))))))"

subsection \<open>Reading a trace\<close>

fun sent :: "event list \<Rightarrow> packet list" where
  "sent [] = []"
| "sent (Send p # evs) = p # sent evs"
| "sent (_ # evs) = sent evs"

definition seq_of :: "packet \<Rightarrow> int" where
  "seq_of p = (case TCP p of None \<Rightarrow> 0 | Some t \<Rightarrow> seq t)"

definition flags_of :: "packet \<Rightarrow> int" where
  "flags_of p = (case TCP p of None \<Rightarrow> 0 | Some t \<Rightarrow> flags t)"

subsection \<open>Auxiliary notions for the statements\<close>

text \<open>
  The spec calls the magic constant and the checksum 8-bit values. The theorems that need
  it assume so of the parameters.
\<close>

definition si_ok :: "session_info \<Rightarrow> bool" where
  "si_ok si \<longleftrightarrow> 0 \<le> MAGIC_SEQ si \<and> MAGIC_SEQ si < 256
     \<and> (\<forall>bs. 0 \<le> CRC8_FUNC si bs \<and> CRC8_FUNC si bs < 256)"

text \<open>The packets \<open>send_stego_msg\<close> composes, named.\<close>

definition syn_pkt :: "session_info \<Rightarrow> StegoClient \<Rightarrow> packet" where
  "syn_pkt si self =
     mk_packet (self_clt self) (self_srv self)
       \<lparr>sport = self_curr_port self, dport = PORT_HTTP si, seq = self_seq self, ack = 0,
        flags = FLAG_SYN si\<rparr>"

definition ack_pkt :: "session_info \<Rightarrow> StegoClient \<Rightarrow> int \<Rightarrow> packet" where
  "ack_pkt si self peer_seq =
     mk_packet (self_clt self) (self_srv self)
       \<lparr>sport = self_curr_port self, dport = PORT_HTTP si, seq = self_seq self + 1,
        ack = peer_seq + 1, flags = FLAG_ACK si\<rparr>"

definition data_pkt :: "session_info \<Rightarrow> StegoClient \<Rightarrow> int \<Rightarrow> packet" where
  "data_pkt si self q =
     mk_packet (self_clt self) (self_srv self)
       \<lparr>sport = self_curr_port self, dport = PORT_HTTP si, seq = q, ack = 0,
        flags = FLAG_PSH si OR FLAG_ACK si\<rparr>"

text \<open>
  The values \<open>self._seq\<close> takes in the loop of \<open>transmit\<close>, one per bit, as long as no
  \<open>send\<close> raises; the loop stops at the first one that does not fit 32 bits.
\<close>

fun seq_trace :: "int \<Rightarrow> nat \<Rightarrow> int list \<Rightarrow> int list" where
  "seq_trace s n [] = []"
| "seq_trace s n (b # bs) =
     (let s1 = s + int n * 2;
          s2 = (if b = 1 then s1 OR b else s1 AND NOT 1)
      in s2 # seq_trace s2 (Suc n) bs)"

text \<open>
  A concrete \<open>session_info\<close> for the examples: CRC-8 with polynomial \<open>0x07\<close> and initial
  value 0, the usual flag bits and port 80.
\<close>

definition crc8_step :: "int \<Rightarrow> int" where
  "crc8_step c =
     (if c AND 0x80 \<noteq> 0 then (push_bit 1 c XOR 0x07) AND 0xFF else push_bit 1 c AND 0xFF)"

definition crc8_byte :: "int \<Rightarrow> int \<Rightarrow> int" where
  "crc8_byte c b = (crc8_step ^^ 8) ((c XOR b) AND 0xFF)"

definition crc8 :: "int list \<Rightarrow> int" where
  "crc8 bs = foldl crc8_byte 0 bs"

definition sample_info :: session_info where
  "sample_info = \<lparr>MAGIC_SEQ = 0xA5, CRC8_FUNC = crc8, PORT_HTTP = 80, FLAG_SYN = 0x02,
                   FLAG_ACK = 0x10, FLAG_PSH = 0x08\<rparr>"

definition sample_client :: StegoClient where
  "sample_client = \<lparr>self_curr_port = 50000, self_clt = ''10.0.0.1'', self_srv = ''10.0.0.2'',
                     self_seq = 1000\<rparr>"

text \<open>The client state when the SYN is sent (line 109 of the source).\<close>

definition client_at_syn :: "env \<Rightarrow> string \<Rightarrow> string \<Rightarrow> int \<Rightarrow> StegoClient" where
  "client_at_syn e clt_ip srv_ip init_seq =
     \<lparr>self_curr_port = randrange 49152 65535 (rnd e), self_clt = clt_ip, self_srv = srv_ip,
      self_seq = init_seq\<rparr>"

text \<open>A peer and an environment for the examples.\<close>

definition sample_synack :: "int \<Rightarrow> packet" where
  "sample_synack ackno =
     \<lparr>IP = Some \<lparr>src = ''10.0.0.2'', dst = ''10.0.0.1''\<rparr>,
      TCP = Some \<lparr>sport = 80, dport = 49157, seq = 7000, ack = ackno, flags = 0x12\<rparr>\<rparr>"

definition sample_env :: "packet list \<Rightarrow> env" where
  "sample_env ps = \<lparr>rnd = 5, bind_ok = True, arrived = ps\<rparr>"

section \<open>Arithmetic of the bit operations\<close>

lemma or_low:
  fixes m l :: int
  assumes "0 \<le> l" "l < 2 ^ n"
  shows "push_bit n m OR l = m * 2 ^ n + l"
proof -
  have l: "take_bit n l = l" using assms by (simp add: take_bit_int_eq_self)
  have "push_bit n m AND take_bit n l = 0"
    by (rule bit_eqI) (auto simp: bit_simps)
  then have "push_bit n m + take_bit n l = push_bit n m OR take_bit n l"
    by (rule disjunctive_add_eq_or)
  then show ?thesis by (simp add: l push_bit_eq_mult)
qed

lemma and_not_1_int: "(s::int) AND NOT 1 = 2 * (s div 2)"
proof (rule bit_eqI)
  fix n
  have l: "bit (s AND NOT 1) n = (bit s n \<and> n \<noteq> 0)"
    by (simp add: bit_and_iff bit_not_iff bit_1_iff del: not_one_eq)
  have r: "bit (2 * (s div 2)) n = (bit s n \<and> n \<noteq> 0)"
    by (cases n) (simp_all add: bit_double_iff bit_Suc)
  show "bit (s AND NOT 1) n = bit (2 * (s div 2)) n"
    by (simp only: l r)
qed

lemma lsb_force:
  "(if b = 1 then x OR b else x AND NOT 1) = 2 * (x div 2) + (if b = (1::int) then 1 else 0)"
  using and_not_1_int [of x] by (simp add: or_one_eq)

lemma and_255_range: "0 \<le> (x::int) AND 255 \<and> x AND 255 < 256"
proof -
  have "x AND 255 = take_bit 8 x" by (simp add: take_bit_eq_mask mask_eq_exp_minus_1)
  then show ?thesis using take_bit_int_less_exp [of 8 x] by simp
qed

section \<open>The sample CRC is an 8-bit function\<close>

lemma crc8_step_range: "0 \<le> crc8_step c \<and> crc8_step c < 256"
  unfolding crc8_step_def using and_255_range by simp

lemma crc8_byte_range: "0 \<le> crc8_byte c b \<and> crc8_byte c b < 256"
proof -
  have "crc8_byte c b = crc8_step ((crc8_step ^^ 7) ((c XOR b) AND 0xFF))"
    unfolding crc8_byte_def by (simp add: eval_nat_numeral)
  then show ?thesis using crc8_step_range by simp
qed

lemma crc8_range: "0 \<le> crc8 bs \<and> crc8 bs < 256"
proof (induction bs rule: rev_induct)
  case Nil
  show ?case by (simp add: crc8_def)
next
  case (snoc b bs)
  show ?case using crc8_byte_range by (simp add: crc8_def)
qed

lemma si_ok_sample: "si_ok sample_info"
  using crc8_range by (simp add: si_ok_def sample_info_def)

section \<open>The header\<close>

lemma layout_consts:
  "MSG_LEN_BYTE * BYTE_LEN_IN_BITS = 16" "MSG_LEN_BYTE + MAGIC_LEN_BYTE = 3"
  "CRC_LEN_BYTE * BYTE_LEN_IN_BITS = 8" "int BYTE_LEN_IN_BITS = 8" "MAX_MSG_SIZE = 65535"
  by (simp_all add: BYTE_LEN_IN_BITS_def MSG_LEN_BYTE_def MAGIC_LEN_BYTE_def CRC_LEN_BYTE_def
      MAX_MSG_SIZE_def)

lemma to_bytes_3:
  assumes "0 \<le> m" "m < 256" "0 \<le> l" "l < 65536"
  shows "to_bytes (m * 65536 + l) 3 = Inr [m, l div 256, l mod 256]"
proof -
  have a: "(m * 65536 + l) div 65536 mod 256 = m" using assms by simp
  have b: "(m * 65536 + l) div 256 mod 256 = l div 256"
  proof -
    have "(m * 65536 + l) div 256 = m * 256 + l div 256" by simp
    moreover have "l div 256 < 256" "0 \<le> l div 256" using assms by simp_all
    ultimately show ?thesis by simp
  qed
  have c: "(m * 65536 + l) mod 256 = l mod 256"
  proof -
    have "m * 65536 = (m * 256) * 256" by simp
    then show ?thesis by (metis mod_mult_self4 mult.commute)
  qed
  have r: "\<not> (m * 65536 + l < 0)" "\<not> (16777216 \<le> m * 65536 + l)" using assms by simp_all
  have u: "[0..<3] = [0, 1, 2]" by (simp add: upt_rec)
  show ?thesis unfolding to_bytes_def using r assms by (simp add: u a b c)
qed

lemma build_init_seq_value:
  assumes ok: "si_ok si" and enc: "encode_utf8 msg = Inr bs"
    and L: "L = int (length bs) * 8" and le: "L \<le> 65535"
  shows "build_init_seq si msg =
           Inr (Some (MAGIC_SEQ si * 16777216 + L * 256
                      + CRC8_FUNC si [MAGIC_SEQ si, L div 256, L mod 256]))"
proof -
  let ?m = "MAGIC_SEQ si"
  let ?c = "CRC8_FUNC si [?m, L div 256, L mod 256]"
  have m: "0 \<le> ?m" "?m < 256" and c: "0 \<le> ?c" "?c < 256"
    using ok by (simp_all add: si_ok_def)
  have L0: "0 \<le> L" "L < 65536" using L le by simp_all
  have base: "push_bit 16 ?m OR L = ?m * 65536 + L"
    using or_low [of L 16 ?m] L0 by simp
  have full: "push_bit 8 (?m * 65536 + L) OR ?c = ?m * 16777216 + L * 256 + ?c"
    using or_low [of ?c 8 "?m * 65536 + L"] c by simp
  have r1: "\<not> int2ba_raises (push_bit 16 ?m)" "\<not> int2ba_raises ?m" "\<not> int2ba_raises ?c"
    "\<not> int2ba_raises (?m * 16777216 + L * 256 + ?c)"
    using m c L0 by (simp_all add: int2ba_raises_def)
  have r2: "\<not> int (length bs) * 8 > 65535" using L le by simp
  show ?thesis
    unfolding build_init_seq_def layout_consts
    using r2 by (simp add: enc L [symmetric] base to_bytes_3 [OF m L0] full r1)
qed

lemma header_as_sum:
  assumes "0 \<le> L" "L < 65536" "0 \<le> c" "c < 256"
  shows "push_bit 24 m OR push_bit 8 L OR c = m * 16777216 + L * 256 + (c::int)"
proof -
  have a: "push_bit 8 L OR c = L * 256 + c"
    using or_low [of c 8 L] assms by simp
  have "0 \<le> L * 256 + c" "L * 256 + c < 2 ^ 24" using assms by simp_all
  from or_low [OF this, of m] show ?thesis by (simp add: a)
qed

text \<open>
  C1. For a message whose UTF-8 encoding has \<open>L \<le> 65535\<close> bits, \<open>_build_init_seq\<close>
  returns \<open>(magic << 24) | (L << 8) | checksum\<close>, a value of 32 bits, where the checksum
  is the CRC of exactly the three bytes magic, high byte of \<open>L\<close>, low byte of \<open>L\<close>, which
  are the big-endian bytes of the 24-bit prefix \<open>(magic << 16) | L\<close>.
\<close>

theorem build_init_seq_header:
  assumes "si_ok si" and "encode_utf8 msg = Inr bs"
    and "L = int (length bs) * 8" and "L \<le> 65535"
  shows "let magic = MAGIC_SEQ si;
             prefix_bytes = [magic, L div 256, L mod 256];
             checksum = CRC8_FUNC si prefix_bytes;
             isn = push_bit 24 magic OR push_bit 8 L OR checksum
         in build_init_seq si msg = Inr (Some isn)
            \<and> to_bytes (push_bit 16 magic OR L) 3 = Inr prefix_bytes
            \<and> 0 \<le> isn \<and> isn < 2 ^ 32"
proof -
  let ?m = "MAGIC_SEQ si"
  let ?c = "CRC8_FUNC si [?m, L div 256, L mod 256]"
  have m: "0 \<le> ?m" "?m < 256" and c: "0 \<le> ?c" "?c < 256"
    using assms(1) by (simp_all add: si_ok_def)
  have L0: "0 \<le> L" "L < 65536" using assms(3,4) by simp_all
  have isn: "push_bit 24 ?m OR push_bit 8 L OR ?c = ?m * 16777216 + L * 256 + ?c"
    by (rule header_as_sum [OF L0 c])
  have base: "push_bit 16 ?m OR L = ?m * 65536 + L"
    using or_low [of L 16 ?m] L0 by simp
  have lo: "0 \<le> ?m * 16777216 + L * 256 + ?c" using m L0 c by simp
  have hi: "?m * 16777216 + L * 256 + ?c < 2 ^ 32" using m L0 c by simp
  show ?thesis
    unfolding Let_def isn base
    using build_init_seq_value [OF assms] to_bytes_3 [OF m L0] lo hi by simp
qed

theorem build_init_seq_header_witness:
  "build_init_seq sample_info [0x68, 0x69] = Inr (Some (push_bit 24 0xA5 OR push_bit 8 16 OR 248))
   \<and> crc8 [0xA5, 0, 16] = 248"
proof -
  have e: "encode_utf8 [0x68, 0x69] = Inr [0x68, 0x69]" by (simp add: utf8_char_def)
  have c: "crc8 [0xA5, 0, 16] = 248" by code_simp
  show ?thesis
    using build_init_seq_header [OF si_ok_sample e, of 16] c
    by (simp add: sample_info_def Let_def)
qed

section \<open>The data phase\<close>

lemma send_data_pkt:
  "send (data_pkt si self q) = (if seq32 q then Inr [Send (data_pkt si self q)] else Inl ValueError)"
  by (simp add: send_def send_raises_def data_pkt_def mk_packet_def seq32_def)

lemma transmit_trace:
  "snd (transmit si self (enumerate n bits)) =
     (map (\<lambda>q. Send (data_pkt si self q)) (takeWhile seq32 (seq_trace (self_seq self) n bits)),
      if list_all seq32 (seq_trace (self_seq self) n bits) then None else Some ValueError)"
proof (induction bits arbitrary: self n)
  case Nil
  show ?case by simp
next
  case (Cons b bs)
  let ?s2 = "if b = 1 then (self_seq self + int n * 2) OR b else (self_seq self + int n * 2) AND NOT 1"
  let ?self' = "self\<lparr>self_seq := ?s2\<rparr>"
  have dp: "\<And>q. data_pkt si ?self' q = data_pkt si self q"
    by (simp add: data_pkt_def del: not_one_eq)
  have tr: "seq_trace (self_seq self) n (b # bs) = ?s2 # seq_trace ?s2 (Suc n) bs"
    by (simp add: Let_def del: not_one_eq)
  have ih: "snd (transmit si ?self' (enumerate (Suc n) bs)) =
     (map (\<lambda>q. Send (data_pkt si self q)) (takeWhile seq32 (seq_trace ?s2 (Suc n) bs)),
      if list_all seq32 (seq_trace ?s2 (Suc n) bs) then None else Some ValueError)"
    using Cons.IH [of ?self' "Suc n"] by (simp add: dp del: not_one_eq)
  have tm: "transmit si self (enumerate n (b # bs)) =
      (case send (data_pkt si self ?s2) of
            Inl x \<Rightarrow> (?self', [], Some x)
          | Inr ev \<Rightarrow>
              let (self'', evs, x) = transmit si ?self' (enumerate (Suc n) bs)
              in (self'', ev @ evs, x))"
    by (simp add: Let_def data_pkt_def del: not_one_eq)
  show ?case
  proof (cases "seq32 ?s2")
    case True
    then show ?thesis
      unfolding tm tr using ih
      by (simp add: send_data_pkt case_prod_beta del: not_one_eq)
  next
    case False
    then show ?thesis
      unfolding tm tr
      by (simp add: send_data_pkt del: not_one_eq)
  qed
qed

lemma sent_map_Send: "sent (map (\<lambda>q. Send (f q)) qs) = map f qs"
  by (induction qs) simp_all

lemma sent_append: "sent (xs @ ys) = sent xs @ sent ys"
  by (induction xs rule: sent.induct) simp_all

lemma seq_of_data_pkt: "seq_of (data_pkt si self q) = q"
  by (simp add: seq_of_def data_pkt_def mk_packet_def)

lemma flags_of_data_pkt: "flags_of (data_pkt si self q) = (FLAG_PSH si OR FLAG_ACK si)"
  by (simp add: flags_of_def data_pkt_def mk_packet_def)

lemma length_seq_trace: "length (seq_trace s n bits) = length bits"
  by (induction bits arbitrary: s n) (simp_all add: Let_def del: not_one_eq)

lemma loop_events:
  "fst (snd (transmit si self (enumerate n bits))) =
     map (\<lambda>q. Send (data_pkt si self q)) (takeWhile seq32 (seq_trace (self_seq self) n bits))"
  using transmit_trace [of si self n bits] by (simp add: prod_eq_iff)

lemma loop_exn:
  "snd (snd (transmit si self (enumerate n bits))) =
     (if list_all seq32 (seq_trace (self_seq self) n bits) then None else Some ValueError)"
  using transmit_trace [of si self n bits] by (simp add: prod_eq_iff)

lemma loop_sent:
  "sent (fst (snd (transmit si self (enumerate n bits)))) =
     map (data_pkt si self) (takeWhile seq32 (seq_trace (self_seq self) n bits))"
  by (simp add: loop_events sent_map_Send)

lemma data_seqs:
  "map seq_of (sent (fst (snd (transmit si self (enumerate n bits))))) =
     takeWhile seq32 (seq_trace (self_seq self) n bits)"
  by (simp add: loop_sent seq_of_data_pkt comp_def)

lemma takeWhile_all_iff: "length (takeWhile P xs) = length xs \<longleftrightarrow> list_all P xs"
  by (induction xs) auto

lemma takeWhile_reaches:
  assumes "i < length xs" and "\<forall>j\<le>i. P (xs ! j)"
  shows "i < length (takeWhile P xs)"
proof (rule ccontr)
  assume "\<not> i < length (takeWhile P xs)"
  then have k: "length (takeWhile P xs) \<le> i" by simp
  then have "length (takeWhile P xs) < length xs" using assms(1) by simp
  then have "\<not> P (xs ! length (takeWhile P xs))" by (rule nth_length_takeWhile)
  with assms(2) k show False by blast
qed

lemma seq_trace_step:
  "i < length bits \<Longrightarrow>
   seq_trace s n bits ! i =
     (let s1 = (if i = 0 then s else seq_trace s n bits ! (i - 1)) + int (n + i) * 2
      in if bits ! i = 1 then s1 OR 1 else s1 AND NOT 1)"
proof (induction bits arbitrary: s n i)
  case Nil
  then show ?case by simp
next
  case (Cons b bs)
  show ?case
  proof (cases i)
    case 0
    then show ?thesis by (simp add: Let_def del: not_one_eq)
  next
    case (Suc j)
    then have "j < length bs" using Cons.prems by simp
    from Cons.IH [OF this] show ?thesis
      using Suc by (cases j) (simp_all add: Let_def del: not_one_eq)
  qed
qed

lemma seq_trace_closed:
  "i < length bits \<Longrightarrow>
   seq_trace s n bits ! i =
     2 * (s div 2) + 2 * (\<Sum>k = n..n + i. int k) + (if bits ! i = 1 then 1 else 0)"
proof (induction bits arbitrary: s n i)
  case Nil
  then show ?case by simp
next
  case (Cons b bs)
  let ?s2 = "if b = 1 then (s + int n * 2) OR b else (s + int n * 2) AND NOT 1"
  have s2: "?s2 = 2 * (s div 2) + 2 * int n + (if b = 1 then 1 else 0)"
    by (simp only: lsb_force) simp
  show ?case
  proof (cases i)
    case 0
    then show ?thesis using s2 by (simp add: Let_def del: not_one_eq)
  next
    case (Suc j)
    then have j: "j < length bs" using Cons.prems by simp
    have d: "?s2 div 2 = s div 2 + int n" by (simp only: s2) simp
    have sm: "(\<Sum>k = n..n + Suc j. int k) = int n + (\<Sum>k = Suc n..Suc n + j. int k)"
      by (simp add: sum.atLeast_Suc_atMost)
    have "seq_trace s n (b # bs) ! i = seq_trace ?s2 (Suc n) bs ! j"
      using Suc by (simp add: Let_def del: not_one_eq)
    also have "\<dots> = 2 * (?s2 div 2) + 2 * (\<Sum>k = Suc n..Suc n + j. int k) + (if bs ! j = 1 then 1 else 0)"
      by (rule Cons.IH [OF j])
    finally show ?thesis using Suc by (simp only: d sm) simp
  qed
qed

lemma gauss_int: "2 * (\<Sum>k = 0..i. int k) = int i * (int i + 1)"
  by (induction i) (simp_all add: algebra_simps)

lemma seq_trace_closed0:
  assumes "i < length bits"
  shows "seq_trace s 0 bits ! i = 2 * (s div 2) + int i * (int i + 1) + (if bits ! i = 1 then 1 else 0)"
  using seq_trace_closed [OF assms, of s 0] gauss_int [of i] by simp

lemma seq_trace_bounds:
  assumes "i < length bits"
  shows "2 * (s div 2) + int i * (int i + 1) \<le> seq_trace s 0 bits ! i
         \<and> seq_trace s 0 bits ! i \<le> 2 * (s div 2) + int i * (int i + 1) + 1"
  by (simp add: seq_trace_closed0 [OF assms])

lemma seq_trace_prefix_in_range:
  assumes i: "i < length bits" and s: "0 \<le> s" and hi: "s + int i * (int i + 1) + 1 < 2 ^ 32"
  shows "\<forall>j\<le>i. seq32 (seq_trace s 0 bits ! j)"
proof (intro allI impI)
  fix j
  assume j: "j \<le> i"
  then have jl: "j < length bits" using i by simp
  have m: "int j * (int j + 1) \<le> int i * (int i + 1)"
    using j by (intro mult_mono) simp_all
  have e: "0 \<le> 2 * (s div 2)" "2 * (s div 2) \<le> s" using s by simp_all
  have k: "0 \<le> int j * (int j + 1)" by simp
  from seq_trace_bounds [OF jl, of s] m e k hi
  show "seq32 (seq_trace s 0 bits ! j)" unfolding seq32_def by linarith
qed

lemma packet_sent_when_in_range:
  assumes "i < length bits" and "0 \<le> self_seq self"
    and "self_seq self + int i * (int i + 1) + 1 < 2 ^ 32"
  shows "i < length (sent (fst (snd (transmit si self (enumerate 0 bits)))))"
proof -
  have "i < length (takeWhile seq32 (seq_trace (self_seq self) 0 bits))"
    using seq_trace_prefix_in_range [OF assms] assms(1)
    by (intro takeWhile_reaches) (simp_all add: length_seq_trace)
  then show ?thesis by (simp add: loop_sent)
qed

lemma all_sent_when_in_range:
  assumes "0 \<le> self_seq self"
    and "self_seq self + int (length bits) * int (length bits) < 2 ^ 32"
  shows "list_all seq32 (seq_trace (self_seq self) 0 bits)"
proof -
  have "\<forall>i < length (seq_trace (self_seq self) 0 bits). seq32 (seq_trace (self_seq self) 0 bits ! i)"
  proof (intro allI impI)
    fix i
    assume "i < length (seq_trace (self_seq self) 0 bits)"
    then have i: "i < length bits" by (simp add: length_seq_trace)
    then have "int i + 1 \<le> int (length bits)" by simp
    then have "int i * (int i + 1) + (int i + 1) \<le> int (length bits) * int (length bits)"
      using mult_mono [of "int i + 1" "int (length bits)" "int i + 1" "int (length bits)"]
      by (simp add: algebra_simps)
    then have "self_seq self + int i * (int i + 1) + 1 < 2 ^ 32" using assms(2) by simp
    from seq_trace_prefix_in_range [OF i assms(1) this]
    show "seq32 (seq_trace (self_seq self) 0 bits ! i)" by simp
  qed
  then show ?thesis by (simp add: list_all_length)
qed

lemma sent_nth:
  assumes "i < length (sent (fst (snd (transmit si self (enumerate 0 bits)))))"
  shows "i < length bits"
    and "sent (fst (snd (transmit si self (enumerate 0 bits)))) ! i
           = data_pkt si self (seq_trace (self_seq self) 0 bits ! i)"
    and "seq32 (seq_trace (self_seq self) 0 bits ! i)"
proof -
  let ?tr = "seq_trace (self_seq self) 0 bits"
  have i: "i < length (takeWhile seq32 ?tr)" using assms by (simp add: loop_sent)
  have "length (takeWhile seq32 ?tr) \<le> length ?tr" by (rule length_takeWhile_le)
  then show "i < length bits" using i by (simp add: length_seq_trace)
  have n: "takeWhile seq32 ?tr ! i = ?tr ! i" using i by (rule takeWhile_nth)
  show "sent (fst (snd (transmit si self (enumerate 0 bits)))) ! i = data_pkt si self (?tr ! i)"
    using i by (simp add: loop_sent n)
  have "takeWhile seq32 ?tr ! i \<in> set (takeWhile seq32 ?tr)" using i by simp
  then show "seq32 (?tr ! i)" unfolding n by (rule set_takeWhileD [THEN conjunct2])
qed

text \<open>
  C2. In the loop, for the bit at index \<open>i\<close>, the session sequence number (that of the
  packet sent before, or the starting one for \<open>i = 0\<close>) is advanced by \<open>i * 2\<close>, then
  its lowest bit is forced to the bit, the higher bits staying as advanced; the result is the
  sequence number of the \<open>i\<close>-th transmitted packet, a PSH+ACK packet, odd exactly when
  the bit is 1. The loop only sends packets, at most one per bit and in order; the numbers sent
  fit 32 bits, since \<open>send\<close> raises on the first one that does not and the loop ends
  there. Every bit is sent when the starting number is not negative and leaves room for the
  square of the number of bits below \<open>2 ^ 32\<close>.
\<close>

theorem transmit_bit_step:
  "let evs = fst (snd (transmit si self (enumerate 0 bits)));
       raised = snd (snd (transmit si self (enumerate 0 bits)));
       q = (\<lambda>k. seq_of (sent evs ! k));
       before = (if i = 0 then self_seq self else q (i - 1));
       advanced = before + int i * 2
   in evs = map Send (sent evs) \<and> length (sent evs) \<le> length bits
      \<and> (i < length (sent evs) \<longrightarrow>
            flags_of (sent evs ! i) = (FLAG_PSH si OR FLAG_ACK si)
            \<and> q i = (if bits ! i = 1 then advanced OR 1 else advanced AND NOT 1)
            \<and> q i div 2 = advanced div 2
            \<and> (odd (q i) \<longleftrightarrow> bits ! i = 1)
            \<and> seq32 (q i))
      \<and> (raised = None \<longleftrightarrow> length (sent evs) = length bits)
      \<and> (raised = None \<or> raised = Some ValueError)
      \<and> (0 \<le> self_seq self \<and> self_seq self + int (length bits) * int (length bits) < 2 ^ 32
            \<longrightarrow> raised = None \<and> length (sent evs) = length bits)"
proof -
  let ?tr = "seq_trace (self_seq self) 0 bits"
  let ?evs = "fst (snd (transmit si self (enumerate 0 bits)))"
  let ?raised = "snd (snd (transmit si self (enumerate 0 bits)))"
  have evs: "?evs = map Send (sent ?evs)"
    by (simp add: loop_sent) (simp add: loop_events)
  have len: "length (sent ?evs) = length (takeWhile seq32 ?tr)" by (simp add: loop_sent)
  have le: "length (sent ?evs) \<le> length bits"
    using length_takeWhile_le [of seq32 ?tr] by (simp add: len length_seq_trace)
  have rs: "?raised = None \<longleftrightarrow> length (sent ?evs) = length bits"
    using takeWhile_all_iff [of seq32 ?tr] by (simp add: loop_exn len length_seq_trace)
  have rv: "?raised = None \<or> ?raised = Some ValueError" by (simp add: loop_exn)
  have all: "0 \<le> self_seq self \<and> self_seq self + int (length bits) * int (length bits) < 2 ^ 32
            \<longrightarrow> ?raised = None \<and> length (sent ?evs) = length bits"
  proof
    assume a: "0 \<le> self_seq self \<and> self_seq self + int (length bits) * int (length bits) < 2 ^ 32"
    then have "list_all seq32 ?tr" using all_sent_when_in_range by blast
    then have "?raised = None" by (simp add: loop_exn)
    with rs show "?raised = None \<and> length (sent ?evs) = length bits" by simp
  qed
  have step: "i < length (sent ?evs) \<longrightarrow>
            flags_of (sent ?evs ! i) = (FLAG_PSH si OR FLAG_ACK si)
            \<and> seq_of (sent ?evs ! i) =
                (if bits ! i = 1
                 then ((if i = 0 then self_seq self else seq_of (sent ?evs ! (i - 1))) + int i * 2) OR 1
                 else ((if i = 0 then self_seq self else seq_of (sent ?evs ! (i - 1))) + int i * 2) AND NOT 1)
            \<and> seq_of (sent ?evs ! i) div 2 =
                ((if i = 0 then self_seq self else seq_of (sent ?evs ! (i - 1))) + int i * 2) div 2
            \<and> (odd (seq_of (sent ?evs ! i)) \<longleftrightarrow> bits ! i = 1)
            \<and> seq32 (seq_of (sent ?evs ! i))"
  proof
    assume i: "i < length (sent ?evs)"
    have il: "i < length bits" by (rule sent_nth(1) [OF i])
    have q: "seq_of (sent ?evs ! i) = ?tr ! i"
      by (simp add: sent_nth(2) [OF i] seq_of_data_pkt)
    have qp: "0 < i \<Longrightarrow> seq_of (sent ?evs ! (i - 1)) = ?tr ! (i - 1)"
    proof -
      assume "0 < i"
      then have "i - 1 < length (sent ?evs)" using i by simp
      then show ?thesis by (simp add: sent_nth(2) seq_of_data_pkt)
    qed
    have fl: "flags_of (sent ?evs ! i) = (FLAG_PSH si OR FLAG_ACK si)"
      by (simp add: sent_nth(2) [OF i] flags_of_data_pkt)
    let ?before = "if i = 0 then self_seq self else ?tr ! (i - 1)"
    let ?adv = "?before + int i * 2"
    have before: "(if i = 0 then self_seq self else seq_of (sent ?evs ! (i - 1))) = ?before"
      using qp by simp
    have st: "?tr ! i = (if bits ! i = 1 then ?adv OR 1 else ?adv AND NOT 1)"
      using seq_trace_step [OF il, of "self_seq self" 0] by (simp add: Let_def del: not_one_eq)
    have "(if bits ! i = 1 then ?adv OR 1 else ?adv AND NOT 1)
            = (if bits ! i = 1 then ?adv OR bits ! i else ?adv AND NOT 1)"
      by (simp del: not_one_eq)
    then have st2: "?tr ! i = 2 * (?adv div 2) + (if bits ! i = 1 then 1 else 0)"
      by (simp only: st lsb_force)
    have dv: "?tr ! i div 2 = ?adv div 2" by (simp only: st2) simp
    have od: "odd (?tr ! i) \<longleftrightarrow> bits ! i = 1" by (simp only: st2) simp
    have rg: "seq32 (?tr ! i)" by (rule sent_nth(3) [OF i])
    show "flags_of (sent ?evs ! i) = (FLAG_PSH si OR FLAG_ACK si)
            \<and> seq_of (sent ?evs ! i) =
                (if bits ! i = 1
                 then ((if i = 0 then self_seq self else seq_of (sent ?evs ! (i - 1))) + int i * 2) OR 1
                 else ((if i = 0 then self_seq self else seq_of (sent ?evs ! (i - 1))) + int i * 2) AND NOT 1)
            \<and> seq_of (sent ?evs ! i) div 2 =
                ((if i = 0 then self_seq self else seq_of (sent ?evs ! (i - 1))) + int i * 2) div 2
            \<and> (odd (seq_of (sent ?evs ! i)) \<longleftrightarrow> bits ! i = 1)
            \<and> seq32 (seq_of (sent ?evs ! i))"
      unfolding before q using fl st dv od rg by (simp del: not_one_eq)
  qed
  show ?thesis
    unfolding Let_def using evs le step rs rv all by blast
qed

theorem transmit_bit_step_witness:
  "length (sent (fst (snd (transmit sample_info sample_client (enumerate 0 [1, 0, 1]))))) = 3
   \<and> snd (snd (transmit sample_info sample_client (enumerate 0 [1, 0, 1]))) = None
   \<and> seq_of (sent (fst (snd (transmit sample_info sample_client (enumerate 0 [1, 0, 1])))) ! 2)
       = (seq_of (sent (fst (snd (transmit sample_info sample_client (enumerate 0 [1, 0, 1])))) ! 1)
          + 2 * 2) OR 1
   \<and> seq_of (sent (fst (snd (transmit sample_info sample_client (enumerate 0 [1, 0, 1])))) ! 2) = 1007"
proof -
  define t where "t = transmit sample_info sample_client (enumerate 0 [1, 0, 1])"
  define pkts where "pkts = sent (fst (snd t))"
  have r: "0 \<le> self_seq sample_client
           \<and> self_seq sample_client + int (length [1, 0, 1::int]) * int (length [1, 0, 1::int]) < 2 ^ 32"
    by (simp add: sample_client_def)
  note th = transmit_bit_step [where i = 2 and bits = "[1, 0, 1]" and si = sample_info
      and self = sample_client, unfolded Let_def, folded t_def, folded pkts_def]
  from th r have l: "length pkts = 3" and n: "snd (snd t) = None" by simp_all
  from th l have s: "seq_of (pkts ! 2) = (seq_of (pkts ! 1) + 2 * 2) OR 1" by simp
  have e: "map seq_of pkts = [1001, 1002, 1007]"
    unfolding pkts_def t_def data_seqs by (simp add: sample_client_def seq32_def Let_def)
  have "seq_of (pkts ! 2) = map seq_of pkts ! 2" using l by simp
  then have v: "seq_of (pkts ! 2) = 1007" by (simp add: e)
  show ?thesis using l n s v unfolding pkts_def t_def by simp
qed

text \<open>
  C3. The sequence number sent for the bit at index \<open>i\<close> is not the starting number \<open>S\<close>
  plus \<open>i * 2\<close> up to the lowest bit: the advances add up. For three 0 bits from
  \<open>S = 1000\<close> the packets carry 1000, 1002 and 1006, and 1006 is not 1004 or 1005.
\<close>

theorem lsb_rule_counterexample:
  "seq_of (sent (fst (snd (transmit sample_info sample_client (enumerate 0 [0, 0, 0])))) ! 2) div 2
     \<noteq> (self_seq sample_client + 2 * 2) div 2"
proof -
  define pkts where "pkts = sent (fst (snd (transmit sample_info sample_client (enumerate 0 [0, 0, 0]))))"
  have e: "map seq_of pkts = [1000, 1002, 1006]"
    unfolding pkts_def data_seqs by (simp add: sample_client_def seq32_def Let_def)
  then have "length (map seq_of pkts) = 3" by simp
  then have "seq_of (pkts ! 2) = map seq_of pkts ! 2" by simp
  then have "seq_of (pkts ! 2) = 1006" by (simp add: e)
  moreover have "self_seq sample_client = 1000" by (simp add: sample_client_def)
  ultimately show ?thesis unfolding pkts_def by simp
qed

text \<open>
  C3, as the code has it: the sequence number of the packet transmitted for the bit at
  index \<open>i\<close> is odd for a 1 bit and even for a 0 bit, and it is \<open>S + i * (i + 1)\<close>, the
  sum of the advances \<open>2 * j\<close> for \<open>j \<le> i\<close>, with only the lowest bit possibly altered.
  That is \<open>S + i * 2\<close> for the first two bits. The packet for bit \<open>i\<close> is transmitted
  whenever \<open>S\<close> is not negative and \<open>S + i * (i + 1) + 1\<close> is below \<open>2 ^ 32\<close>.
\<close>

theorem transmit_lsb_cumulative:
  "let S = self_seq self;
       pkts = sent (fst (snd (transmit si self (enumerate 0 bits))));
       q = seq_of (pkts ! i)
   in (i < length pkts \<longrightarrow>
         (bits ! i = 1 \<longrightarrow> odd q) \<and> (bits ! i \<noteq> 1 \<longrightarrow> even q)
         \<and> q div 2 = (S + int i * (int i + 1)) div 2
         \<and> (i \<le> 1 \<longrightarrow> q div 2 = (S + int i * 2) div 2))
      \<and> (i < length bits \<and> 0 \<le> S \<and> S + int i * (int i + 1) + 1 < 2 ^ 32 \<longrightarrow> i < length pkts)"
proof -
  let ?pkts = "sent (fst (snd (transmit si self (enumerate 0 bits))))"
  let ?q = "seq_of (?pkts ! i)"
  have a: "i < length ?pkts \<longrightarrow>
         (bits ! i = 1 \<longrightarrow> odd ?q) \<and> (bits ! i \<noteq> 1 \<longrightarrow> even ?q)
         \<and> ?q div 2 = (self_seq self + int i * (int i + 1)) div 2
         \<and> (i \<le> 1 \<longrightarrow> ?q div 2 = (self_seq self + int i * 2) div 2)"
  proof
    assume i: "i < length ?pkts"
    have il: "i < length bits" by (rule sent_nth(1) [OF i])
    have "?q = seq_trace (self_seq self) 0 bits ! i"
      by (simp add: sent_nth(2) [OF i] seq_of_data_pkt)
    then have q: "?q = 2 * (self_seq self div 2) + int i * (int i + 1) + (if bits ! i = 1 then 1 else 0)"
      using seq_trace_closed0 [OF il] by simp
    have ev: "even (int i * (int i + 1))" by simp
    then obtain h where h: "int i * (int i + 1) = 2 * h" by (elim evenE)
    have d: "?q div 2 = (self_seq self + int i * (int i + 1)) div 2"
      by (simp only: q h) simp
    have o: "odd ?q \<longleftrightarrow> bits ! i = 1" by (simp only: q h) simp
    have small: "i \<le> 1 \<Longrightarrow> int i * (int i + 1) = int i * 2"
      by (cases i) simp_all
    show "(bits ! i = 1 \<longrightarrow> odd ?q) \<and> (bits ! i \<noteq> 1 \<longrightarrow> even ?q)
         \<and> ?q div 2 = (self_seq self + int i * (int i + 1)) div 2
         \<and> (i \<le> 1 \<longrightarrow> ?q div 2 = (self_seq self + int i * 2) div 2)"
      using d o small by auto
  qed
  have b: "i < length bits \<and> 0 \<le> self_seq self \<and> self_seq self + int i * (int i + 1) + 1 < 2 ^ 32
            \<longrightarrow> i < length ?pkts"
    using packet_sent_when_in_range by blast
  show ?thesis unfolding Let_def using a b by blast
qed

theorem transmit_lsb_cumulative_witness:
  "2 < length (sent (fst (snd (transmit sample_info sample_client (enumerate 0 [1, 0, 1])))))
   \<and> odd (seq_of (sent (fst (snd (transmit sample_info sample_client (enumerate 0 [1, 0, 1])))) ! 2))
   \<and> seq_of (sent (fst (snd (transmit sample_info sample_client (enumerate 0 [1, 0, 1])))) ! 2) div 2
       = (1000 + 2 * 3) div 2"
proof -
  define pkts where "pkts = sent (fst (snd (transmit sample_info sample_client (enumerate 0 [1, 0, 1]))))"
  have S: "self_seq sample_client = 1000" by (simp add: sample_client_def)
  note th = transmit_lsb_cumulative [where i = 2 and bits = "[1, 0, 1]" and si = sample_info
      and self = sample_client, unfolded Let_def, folded pkts_def, unfolded S]
  from th have l: "2 < length pkts" by simp
  with th have "odd (seq_of (pkts ! 2)) \<and> seq_of (pkts ! 2) div 2 = (1000 + 2 * 3) div 2"
    by simp
  with l show ?thesis unfolding pkts_def by simp
qed

section \<open>The handshake and the whole send operation\<close>

lemma sniff_one:
  "sniff f (Suc 0) xs = (case find f xs of None \<Rightarrow> [] | Some p \<Rightarrow> [p])"
  by (induction xs) (simp_all add: sniff_def)

lemma is_synack_reply_TCP: "is_synack_reply si self p \<Longrightarrow> \<exists>t. TCP p = Some t"
  by (auto simp: is_synack_reply_def split: option.splits)

lemma send_ack_pkt:
  "send (ack_pkt si self q) =
     (if seq32 (self_seq self + 1) \<and> seq32 (q + 1) then Inr [Send (ack_pkt si self q)]
      else Inl ValueError)"
  by (simp add: send_def send_raises_def ack_pkt_def mk_packet_def)

lemma send_syn_pkt:
  "send (syn_pkt si self) =
     (if seq32 (self_seq self) then Inr [Send (syn_pkt si self)] else Inl ValueError)"
  by (simp add: send_def send_raises_def syn_pkt_def mk_packet_def) (simp add: seq32_def)

lemma receive_init_syn_ack_find:
  "receive_init_syn_ack si e self =
     (case find (is_synack_reply si self) (arrived e) of
        None \<Rightarrow> Inr (False, self, [])
      | Some p \<Rightarrow>
          if seq32 (self_seq self + 1) \<and> seq32 (seq_of p + 1)
          then Inr (True, self\<lparr>self_seq := self_seq self + 1\<rparr>,
                    [Send (ack_pkt si self (seq_of p))])
          else Inl ValueError)"
proof (cases "find (is_synack_reply si self) (arrived e)")
  case None
  then show ?thesis by (simp add: receive_init_syn_ack_def sniff_one)
next
  case (Some p)
  then have "is_synack_reply si self p" by (auto simp: find_Some_iff)
  then obtain t where t: "TCP p = Some t" using is_synack_reply_TCP by blast
  have sq: "seq_of p = seq t" by (simp add: seq_of_def t)
  have pk: "mk_packet (self_clt self) (self_srv self)
              \<lparr>sport = self_curr_port self, dport = PORT_HTTP si, seq = self_seq self + 1,
               ack = seq t + 1, flags = FLAG_ACK si\<rparr> = ack_pkt si self (seq t)"
    by (simp add: ack_pkt_def)
  show ?thesis
    by (simp add: receive_init_syn_ack_def sniff_one Some t Let_def pk sq send_ack_pkt)
qed

lemma build_init_seq_too_large:
  assumes "encode_utf8 msg = Inr bs" and "int (length bs) * 8 > 65535"
  shows "build_init_seq si msg = Inr None"
  using assms unfolding build_init_seq_def layout_consts by simp

lemma build_init_seq_not_None:
  assumes "encode_utf8 msg = Inr bs" and "int (length bs) * 8 \<le> 65535"
  shows "build_init_seq si msg \<noteq> Inr None"
  using assms unfolding build_init_seq_def layout_consts
  by (simp add: Let_def split: sum.splits)

lemma encode_utf8_ascii:
  "\<forall>c\<in>set cs. c < 128 \<Longrightarrow> encode_utf8 cs = Inr (map int cs)"
  by (induction cs) (simp_all add: utf8_char_def)

lemma length_byte_bits: "length (byte_bits b) = 8"
  by (simp add: byte_bits_def)

lemma length_frombytes: "length (frombytes bs) = 8 * length bs"
  by (induction bs) (simp_all add: frombytes_def length_byte_bits)

lemma frombytes_Cons: "frombytes (b # bs) = byte_bits b @ frombytes bs"
  by (simp add: frombytes_def)

lemma frombytes_nth:
  "j < length bs \<Longrightarrow> k < 8 \<Longrightarrow> frombytes bs ! (8 * j + k) = bs ! j div 2 ^ (7 - k) mod 2"
proof (induction bs arbitrary: j)
  case Nil
  then show ?case by simp
next
  case (Cons b bs)
  show ?case
  proof (cases j)
    case 0
    then show ?thesis using Cons.prems
      by (simp add: frombytes_Cons nth_append length_byte_bits) (simp add: byte_bits_def)
  next
    case (Suc i)
    then have "i < length bs" using Cons.prems by simp
    from Cons.IH [OF this Cons.prems(2)] show ?thesis using Suc
      by (simp add: frombytes_Cons nth_append length_byte_bits)
  qed
qed


lemma isn_range:
  assumes ok: "si_ok si" and v: "build_init_seq si msg = Inr (Some v)"
    and enc: "encode_utf8 msg = Inr bs"
  shows "0 \<le> v \<and> v + 1 < 2 ^ 32"
proof -
  let ?L = "int (length bs) * 8"
  have le: "?L \<le> 65535"
  proof (rule ccontr)
    assume "\<not> ?L \<le> 65535"
    then have "build_init_seq si msg = Inr None"
      using build_init_seq_too_large [OF enc] by simp
    with v show False by simp
  qed
  then have L8: "?L \<le> 65528" by presburger
  let ?m = "MAGIC_SEQ si"
  let ?c = "CRC8_FUNC si [?m, ?L div 256, ?L mod 256]"
  have m: "0 \<le> ?m" "?m < 256" and c: "0 \<le> ?c" "?c < 256"
    using ok by (simp_all add: si_ok_def)
  have "v = ?m * 16777216 + ?L * 256 + ?c"
    using build_init_seq_value [OF ok enc refl le] v by simp
  then show ?thesis using m c L8 by simp
qed

lemma send_trace:
  assumes ok: "si_ok si" and b: "bind_ok e" and v: "build_init_seq si msg = Inr (Some v)"
    and enc: "encode_utf8 msg = Inr bs"
  shows "send_stego_msg si e msg c s =
     (let self = client_at_syn e c s v;
          ev1 = [SocketCreate, SetReuseAddr, Bind c (self_curr_port self) True,
                 Send (syn_pkt si self)];
          tr = seq_trace (v + 1) 0 (frombytes bs)
      in case find (is_synack_reply si self) (arrived e) of
           None \<Rightarrow> (ev1 @ [Close], None)
         | Some p \<Rightarrow>
             if \<not> seq32 (seq_of p + 1) then (ev1, Some ValueError)
             else if list_all seq32 tr
             then (ev1 @ [Send (ack_pkt si self (seq_of p))]
                       @ map (\<lambda>q. Send (data_pkt si self q)) tr @ [Close], None)
             else (ev1 @ [Send (ack_pkt si self (seq_of p))]
                       @ map (\<lambda>q. Send (data_pkt si self q)) (takeWhile seq32 tr),
                   Some ValueError))"
proof -
  let ?self = "client_at_syn e c s v"
  let ?self1 = "?self\<lparr>self_seq := self_seq ?self + 1\<rparr>"
  let ?tr = "seq_trace (v + 1) 0 (frombytes bs)"
  have r: "seq32 v" "seq32 (v + 1)"
    using isn_range [OF ok v enc] by (simp_all add: seq32_def)
  have sq: "self_seq ?self = v" by (simp add: client_at_syn_def)
  have syn: "mk_packet (self_clt ?self) (self_srv ?self)
               \<lparr>sport = self_curr_port ?self, dport = PORT_HTTP si, seq = self_seq ?self,
                ack = 0, flags = FLAG_SYN si\<rparr> = syn_pkt si ?self"
    by (simp add: syn_pkt_def)
  have snd_syn: "send (syn_pkt si ?self) = Inr [Send (syn_pkt si ?self)]"
    using r by (simp add: send_syn_pkt sq)
  have self: "\<lparr>self_curr_port = randrange 49152 65535 (rnd e), self_clt = c, self_srv = s,
               self_seq = v\<rparr> = ?self"
    by (simp add: client_at_syn_def)
  have port: "randrange 49152 65535 (rnd e) = self_curr_port ?self"
    by (simp add: client_at_syn_def)
  have dp: "\<And>q. data_pkt si ?self1 q = data_pkt si ?self q"
    by (simp add: data_pkt_def)
  have sq1: "self_seq ?self1 = v + 1" by (simp add: client_at_syn_def)
  have tm: "snd (transmit si ?self1 (enumerate 0 (frombytes bs))) =
     (map (\<lambda>q. Send (data_pkt si ?self q)) (takeWhile seq32 ?tr),
      if list_all seq32 ?tr then None else Some ValueError)"
    by (simp only: transmit_trace sq1 dp)
  have tw: "list_all seq32 ?tr \<Longrightarrow> takeWhile seq32 ?tr = ?tr"
    by (simp add: list_all_iff)
  note defs = send_stego_msg_def Let_def client_at_syn_def syn_pkt_def ack_pkt_def data_pkt_def
  show ?thesis
  proof (cases "find (is_synack_reply si ?self) (arrived e)")
    case None
    then have rc: "receive_init_syn_ack si e ?self = Inr (False, ?self, [])"
      by (simp add: receive_init_syn_ack_find)
    show ?thesis
      using snd_syn rc None by (simp add: defs b v enc)
  next
    case (Some p)
    show ?thesis
    proof (cases "seq32 (seq_of p + 1)")
      case False
      then have rc: "receive_init_syn_ack si e ?self = Inl ValueError"
        by (simp add: receive_init_syn_ack_find Some)
      show ?thesis
        using snd_syn rc Some False by (simp add: defs b v enc)
    next
      case True
      obtain self2 ev3 x where t: "transmit si ?self1 (enumerate 0 (frombytes bs)) = (self2, ev3, x)"
        by (cases "transmit si ?self1 (enumerate 0 (frombytes bs))") auto
      from tm t have ev3: "ev3 = map (\<lambda>q. Send (data_pkt si ?self q)) (takeWhile seq32 ?tr)"
        and x: "x = (if list_all seq32 ?tr then None else Some ValueError)"
        by simp_all
      have rc: "receive_init_syn_ack si e ?self =
                  Inr (True, ?self1, [Send (ack_pkt si ?self (seq_of p))])"
        using True r by (simp add: receive_init_syn_ack_find Some sq)
      show ?thesis
      proof (cases "list_all seq32 ?tr")
        case True
        with x have x': "x = None" by simp
        show ?thesis
          using snd_syn rc Some \<open>seq32 (seq_of p + 1)\<close> True t [unfolded x' ev3 tw [OF True]]
          by (simp add: defs b v enc)
      next
        case False
        with x have x': "x = Some ValueError" by simp
        show ?thesis
          using snd_syn rc Some \<open>seq32 (seq_of p + 1)\<close> False t [unfolded x' ev3]
          by (simp add: defs b v enc)
      qed
    qed
  qed
qed

text \<open>
  C4. A packet passes the filter of \<open>_receive_init_syn_ack\<close> if and only if it has an IP
  and a TCP layer, its source address is the server's, its destination address the client's,
  its source port the service port, its destination port the client's port, its flags are
  exactly SYN and ACK, and its acknowledgment number is the client's sequence number (the
  initial one, just sent in the SYN) plus 1. A packet that passes is the one \<open>sniff\<close>
  returns, and the client answers it with the ACK, unless a number of the ACK does not fit
  32 bits and \<open>send\<close> raises. A packet that does not pass is ignored: the wait goes on
  as if it had not arrived.
\<close>

theorem synack_accepted_iff:
  "(is_synack_reply si self p \<longleftrightarrow>
      (\<exists>i t. IP p = Some i \<and> TCP p = Some t
         \<and> src i = self_srv self \<and> dst i = self_clt self
         \<and> sport t = PORT_HTTP si \<and> dport t = self_curr_port self
         \<and> flags t = (FLAG_SYN si OR FLAG_ACK si)
         \<and> ack t = self_seq self + 1))
   \<and> (is_synack_reply si self p \<longrightarrow>
        sniff (is_synack_reply si self) 1 (p # ps) = [p]
        \<and> receive_init_syn_ack si (e\<lparr>arrived := p # ps\<rparr>) self =
            (if seq32 (self_seq self + 1) \<and> seq32 (seq_of p + 1)
             then Inr (True, self\<lparr>self_seq := self_seq self + 1\<rparr>,
                       [Send (ack_pkt si self (seq_of p))])
             else Inl ValueError))
   \<and> (\<not> is_synack_reply si self p \<longrightarrow>
        sniff (is_synack_reply si self) 1 (p # ps) = sniff (is_synack_reply si self) 1 ps
        \<and> receive_init_syn_ack si (e\<lparr>arrived := p # ps\<rparr>) self =
            receive_init_syn_ack si (e\<lparr>arrived := ps\<rparr>) self)"
proof -
  have a: "is_synack_reply si self p \<longleftrightarrow>
      (\<exists>i t. IP p = Some i \<and> TCP p = Some t
         \<and> src i = self_srv self \<and> dst i = self_clt self
         \<and> sport t = PORT_HTTP si \<and> dport t = self_curr_port self
         \<and> flags t = (FLAG_SYN si OR FLAG_ACK si)
         \<and> ack t = self_seq self + 1)"
    by (auto simp: is_synack_reply_def split: option.splits)
  have b: "is_synack_reply si self p \<longrightarrow>
        sniff (is_synack_reply si self) 1 (p # ps) = [p]
        \<and> receive_init_syn_ack si (e\<lparr>arrived := p # ps\<rparr>) self =
            (if seq32 (self_seq self + 1) \<and> seq32 (seq_of p + 1)
             then Inr (True, self\<lparr>self_seq := self_seq self + 1\<rparr>,
                       [Send (ack_pkt si self (seq_of p))])
             else Inl ValueError)"
    by (simp add: receive_init_syn_ack_find sniff_def)
  have c: "\<not> is_synack_reply si self p \<longrightarrow>
        sniff (is_synack_reply si self) 1 (p # ps) = sniff (is_synack_reply si self) 1 ps
        \<and> receive_init_syn_ack si (e\<lparr>arrived := p # ps\<rparr>) self =
            receive_init_syn_ack si (e\<lparr>arrived := ps\<rparr>) self"
    by (simp add: receive_init_syn_ack_find sniff_def)
  from a b c show ?thesis by blast
qed

theorem synack_accepted_iff_witness:
  "is_synack_reply sample_info (client_at_syn (sample_env []) ''10.0.0.1'' ''10.0.0.2'' 1000)
     (sample_synack 1001)
   \<and> receive_init_syn_ack sample_info (sample_env [sample_synack 1001])
        (client_at_syn (sample_env []) ''10.0.0.1'' ''10.0.0.2'' 1000)
      = Inr (True, client_at_syn (sample_env []) ''10.0.0.1'' ''10.0.0.2'' 1001,
             [Send (ack_pkt sample_info
                      (client_at_syn (sample_env []) ''10.0.0.1'' ''10.0.0.2'' 1000) 7000)])
   \<and> \<not> is_synack_reply sample_info (client_at_syn (sample_env []) ''10.0.0.1'' ''10.0.0.2'' 1000)
         (sample_synack 1002)
   \<and> receive_init_syn_ack sample_info (sample_env [sample_synack 1002])
        (client_at_syn (sample_env []) ''10.0.0.1'' ''10.0.0.2'' 1000)
      = Inr (False, client_at_syn (sample_env []) ''10.0.0.1'' ''10.0.0.2'' 1000, [])"
proof -
  let ?self = "client_at_syn (sample_env []) ''10.0.0.1'' ''10.0.0.2'' 1000"
  have g: "is_synack_reply sample_info ?self (sample_synack 1001)"
    by (simp add: is_synack_reply_def sample_synack_def client_at_syn_def sample_env_def
        sample_info_def randrange_def)
  have n: "\<not> is_synack_reply sample_info ?self (sample_synack 1002)"
    by (simp add: is_synack_reply_def sample_synack_def client_at_syn_def sample_env_def
        sample_info_def randrange_def)
  have e: "\<And>ps. sample_env ps = (sample_env [])\<lparr>arrived := ps\<rparr>"
    by (simp add: sample_env_def)
  have s: "seq_of (sample_synack 1001) = 7000" by (simp add: seq_of_def sample_synack_def)
  have r0: "receive_init_syn_ack sample_info (sample_env []) ?self = Inr (False, ?self, [])"
    by (simp add: receive_init_syn_ack_def sniff_def sample_env_def)
  have rg: "seq32 (self_seq ?self + 1)" "seq32 (7000 + 1)"
    by (simp_all add: seq32_def client_at_syn_def)
  have u: "?self\<lparr>self_seq := self_seq ?self + 1\<rparr>
             = client_at_syn (sample_env []) ''10.0.0.1'' ''10.0.0.2'' 1001"
    by (simp add: client_at_syn_def)
  show ?thesis
    using synack_accepted_iff [where si = sample_info and self = ?self and p = "sample_synack 1001" and e = "sample_env []" and ps = "[]"]
      synack_accepted_iff [where si = sample_info and self = ?self and p = "sample_synack 1002" and e = "sample_env []" and ps = "[]"]
      g n rg
    by (simp only: e [symmetric] s r0 u) simp
qed

section \<open>The length check and the local endpoint\<close>

text \<open>
  C5. A message whose UTF-8 encoding has more than 65535 bits (8192 bytes have 65536) is
  rejected by \<open>_build_init_seq\<close> and \<open>send_stego_msg\<close> sends no packet at all. A message
  of at most 65535 bits (8191 bytes have 65528) passes the length check, and once the check
  is reached (the socket is bound) the SYN packet carrying the header is sent first.
\<close>

theorem length_check:
  assumes "encode_utf8 msg = Inr bs" and "L = int (length bs) * 8"
  shows "(L > 65535 \<longrightarrow>
            build_init_seq si msg = Inr None
            \<and> sent (fst (send_stego_msg si e msg c s)) = []
            \<and> snd (send_stego_msg si e msg c s) = None)
       \<and> (L \<le> 65535 \<longrightarrow> build_init_seq si msg \<noteq> Inr None)
       \<and> (L \<le> 65535 \<and> si_ok si \<and> bind_ok e \<longrightarrow>
            (\<exists>v. build_init_seq si msg = Inr (Some v)
                 \<and> hd (sent (fst (send_stego_msg si e msg c s))) = syn_pkt si (client_at_syn e c s v)
                 \<and> sent (fst (send_stego_msg si e msg c s)) \<noteq> []))"
proof (intro conjI impI)
  assume big: "65535 < L"
  then have n: "build_init_seq si msg = Inr None"
    using build_init_seq_too_large [OF assms(1)] assms(2) by simp
  show "build_init_seq si msg = Inr None" by (rule n)
  show "sent (fst (send_stego_msg si e msg c s)) = []"
    by (simp add: send_stego_msg_def Let_def n)
  show "snd (send_stego_msg si e msg c s) = None"
    by (simp add: send_stego_msg_def Let_def n)
next
  assume "L \<le> 65535"
  then show "build_init_seq si msg \<noteq> Inr None"
    using build_init_seq_not_None [OF assms(1)] assms(2) by simp
next
  assume a: "L \<le> 65535 \<and> si_ok si \<and> bind_ok e"
  let ?v = "MAGIC_SEQ si * 16777216 + L * 256 + CRC8_FUNC si [MAGIC_SEQ si, L div 256, L mod 256]"
  have v: "build_init_seq si msg = Inr (Some ?v)"
    using build_init_seq_value [OF _ assms] a by simp
  have b: "bind_ok e" using a by simp
  have "hd (sent (fst (send_stego_msg si e msg c s))) = syn_pkt si (client_at_syn e c s ?v)
        \<and> sent (fst (send_stego_msg si e msg c s)) \<noteq> []"
    using a by (simp add: send_trace [OF _ b v assms(1)] Let_def split: option.splits)
  with v show "\<exists>v. build_init_seq si msg = Inr (Some v)
                 \<and> hd (sent (fst (send_stego_msg si e msg c s))) = syn_pkt si (client_at_syn e c s v)
                 \<and> sent (fst (send_stego_msg si e msg c s)) \<noteq> []"
    by blast
qed

theorem length_check_witness:
  "build_init_seq sample_info (replicate 8192 0x61) = Inr None
   \<and> sent (fst (send_stego_msg sample_info (sample_env []) (replicate 8192 0x61)
                  ''10.0.0.1'' ''10.0.0.2'')) = []
   \<and> (\<exists>v. build_init_seq sample_info (replicate 8191 0x61) = Inr (Some v)
         \<and> hd (sent (fst (send_stego_msg sample_info (sample_env []) (replicate 8191 0x61)
                            ''10.0.0.1'' ''10.0.0.2'')))
             = syn_pkt sample_info (client_at_syn (sample_env []) ''10.0.0.1'' ''10.0.0.2'' v))"
proof -
  have e1: "encode_utf8 (replicate 8192 0x61) = Inr (replicate 8192 0x61)"
    using encode_utf8_ascii [of "replicate 8192 0x61"] by simp
  have e2: "encode_utf8 (replicate 8191 0x61) = Inr (replicate 8191 0x61)"
    using encode_utf8_ascii [of "replicate 8191 0x61"] by simp
  have b: "bind_ok (sample_env [])" by (simp add: sample_env_def)
  show ?thesis
    using length_check [OF e1, where L = 65536 and si = sample_info and e = "sample_env []"
        and c = "''10.0.0.1''" and s = "''10.0.0.2''"]
      length_check [OF e2, where L = 65528 and si = sample_info and e = "sample_env []"
        and c = "''10.0.0.1''" and s = "''10.0.0.2''"]
      si_ok_sample b
    by simp blast
qed

text \<open>
  C7. For a message that is too long the client does hold a resource before the check: the
  socket is created and bound first. With 8192 bytes the trace is create, set option,
  bind (which succeeds), close.
\<close>

theorem too_large_counterexample:
  "fst (send_stego_msg sample_info (sample_env []) (replicate 8192 0x61) ''10.0.0.1'' ''10.0.0.2'')
     = [SocketCreate, SetReuseAddr, Bind ''10.0.0.1'' 49157 True, Close]"
proof -
  have e1: "encode_utf8 (replicate 8192 0x61) = Inr (replicate 8192 0x61)"
    using encode_utf8_ascii [of "replicate 8192 0x61"] by simp
  have n: "build_init_seq sample_info (replicate 8192 0x61) = Inr None"
    using build_init_seq_too_large [OF e1] by simp
  show ?thesis
    by (simp add: send_stego_msg_def Let_def n sample_env_def randrange_def)
qed

text \<open>
  C7, as the code has it: for a message of more than 65535 bits the operation sends no
  packet and ends with the socket closed; the socket is created and bound before the
  length check and closed right after it, so nothing is retained.
\<close>

theorem too_large_releases:
  assumes "encode_utf8 msg = Inr bs" and "int (length bs) * 8 > 65535"
  shows "send_stego_msg si e msg c s =
           ([SocketCreate, SetReuseAddr, Bind c (randrange 49152 65535 (rnd e)) (bind_ok e), Close],
            None)"
  using build_init_seq_too_large [OF assms]
  by (simp add: send_stego_msg_def Let_def)

theorem too_large_releases_witness:
  "send_stego_msg sample_info (sample_env []) (replicate 8192 0x61) ''10.0.0.1'' ''10.0.0.2''
     = ([SocketCreate, SetReuseAddr, Bind ''10.0.0.1'' 49157 True, Close], None)"
proof -
  have e1: "encode_utf8 (replicate 8192 0x61) = Inr (replicate 8192 0x61)"
    using encode_utf8_ascii [of "replicate 8192 0x61"] by simp
  show ?thesis
    using too_large_releases [OF e1, where si = sample_info and e = "sample_env []"
        and c = "''10.0.0.1''" and s = "''10.0.0.2''"]
    by (simp add: sample_env_def randrange_def)
qed

lemma randrange_onto:
  assumes "start \<le> p" and "p < stop"
  shows "randrange start stop (nat (p - start)) = p"
proof -
  have "nat (p - start) < nat (stop - start)" using assms by simp
  then show ?thesis using assms by (simp add: randrange_def)
qed

text \<open>
  C9. The local port is \<open>randrange(49152, 65535)\<close>: it lies between 49152 and 65534, and
  it is never 65535, whatever the random source gives.
\<close>

theorem port_never_65535:
  "take 3 (fst (send_stego_msg si e msg c s))
     = [SocketCreate, SetReuseAddr, Bind c (randrange 49152 65535 (rnd e)) (bind_ok e)]
   \<and> 49152 \<le> randrange 49152 65535 (rnd e)
   \<and> randrange 49152 65535 (rnd e) \<le> 65534
   \<and> randrange 49152 65535 (rnd e) \<noteq> 65535"
proof -
  have "rnd e mod 16383 < 16383" by simp
  then have r: "49152 \<le> randrange 49152 65535 (rnd e) \<and> randrange 49152 65535 (rnd e) \<le> 65534"
    unfolding randrange_def by simp
  have t: "take 3 (fst (send_stego_msg si e msg c s))
     = [SocketCreate, SetReuseAddr, Bind c (randrange 49152 65535 (rnd e)) (bind_ok e)]"
    by (simp add: send_stego_msg_def Let_def split: sum.splits option.splits bool.splits prod.splits)
  from r t show ?thesis by simp
qed

section \<open>Bit order and the empty message\<close>




text \<open>
  C10. The empty message passes the length check: the header has length field 0, the SYN
  carrying it is sent, and after the SYN-ACK the client sends its ACK and closes the socket
  with no PSH+ACK packet in between. Without a SYN-ACK it closes after the SYN. Where the
  peer's sequence number plus 1 does not fit 32 bits, \<open>send\<close> raises on the ACK and the
  handshake does not complete.
\<close>

theorem empty_message:
  assumes "si_ok si" and "bind_ok e"
  shows "let isn = push_bit 24 (MAGIC_SEQ si) OR push_bit 8 0 OR CRC8_FUNC si [MAGIC_SEQ si, 0, 0];
             self = client_at_syn e c s isn;
             ev1 = [SocketCreate, SetReuseAddr, Bind c (self_curr_port self) True,
                    Send (syn_pkt si self)]
         in build_init_seq si [] = Inr (Some isn)
            \<and> isn div 256 mod 65536 = 0
            \<and> send_stego_msg si e [] c s =
                (case find (is_synack_reply si self) (arrived e) of
                   None \<Rightarrow> (ev1 @ [Close], None)
                 | Some p \<Rightarrow>
                     if seq32 (seq_of p + 1)
                     then (ev1 @ [Send (ack_pkt si self (seq_of p)), Close], None)
                     else (ev1, Some ValueError))"
proof -
  let ?m = "MAGIC_SEQ si"
  let ?c = "CRC8_FUNC si [?m, 0, 0]"
  let ?v = "?m * 16777216 + ?c"
  have c: "0 \<le> ?c" "?c < 256" using assms(1) by (simp_all add: si_ok_def)
  have isn: "push_bit 24 ?m OR push_bit 8 0 OR ?c = ?v"
    using header_as_sum [of 0 ?c ?m] c by simp
  have enc: "encode_utf8 [] = Inr []" by simp
  have v: "build_init_seq si [] = Inr (Some ?v)"
    using build_init_seq_value [OF assms(1) enc, of 0] by simp
  have "?v div 256 = ?m * 65536" using c by simp
  then have z: "?v div 256 mod 65536 = 0" by simp
  have fb: "frombytes [] = []" by (simp add: frombytes_def)
  show ?thesis
    unfolding Let_def isn
    using v z by (simp add: send_trace [OF assms v enc] Let_def fb split: option.splits)
qed

theorem empty_message_witness:
  "send_stego_msg sample_info (sample_env [sample_synack 2768240777]) [] ''10.0.0.1'' ''10.0.0.2''
     = ([SocketCreate, SetReuseAddr, Bind ''10.0.0.1'' 49157 True,
         Send (syn_pkt sample_info (client_at_syn (sample_env []) ''10.0.0.1'' ''10.0.0.2'' 2768240776)),
         Send (ack_pkt sample_info (client_at_syn (sample_env []) ''10.0.0.1'' ''10.0.0.2'' 2768240776) 7000),
         Close], None)"
proof -
  have c: "crc8 [0xA5, 0, 0] = 136" by code_simp
  have b: "bind_ok (sample_env [sample_synack 2768240777])" by (simp add: sample_env_def)
  have cl: "client_at_syn (sample_env [sample_synack 2768240777]) ''10.0.0.1'' ''10.0.0.2'' 2768240776
            = client_at_syn (sample_env []) ''10.0.0.1'' ''10.0.0.2'' 2768240776"
    by (simp add: client_at_syn_def sample_env_def)
  have isn: "push_bit 24 (MAGIC_SEQ sample_info) OR push_bit 8 0 OR CRC8_FUNC sample_info [MAGIC_SEQ sample_info, 0, 0]
             = 2768240776"
    by (simp add: sample_info_def c)
  have f: "find (is_synack_reply sample_info
                  (client_at_syn (sample_env []) ''10.0.0.1'' ''10.0.0.2'' 2768240776))
             (arrived (sample_env [sample_synack 2768240777])) = Some (sample_synack 2768240777)"
    by (simp add: is_synack_reply_def sample_synack_def client_at_syn_def sample_env_def
        sample_info_def randrange_def)
  have p: "self_curr_port (client_at_syn (sample_env []) ''10.0.0.1'' ''10.0.0.2'' 2768240776) = 49157"
    by (simp add: client_at_syn_def sample_env_def randrange_def)
  have q: "seq_of (sample_synack 2768240777) = 7000" by (simp add: seq_of_def sample_synack_def)
  have g: "seq32 7001" by (simp add: seq32_def)
  show ?thesis
    using empty_message [OF si_ok_sample b, where c = "''10.0.0.1''" and s = "''10.0.0.2''"]
    unfolding Let_def isn cl
    by (simp add: f p q g)
qed

section \<open>The range of the sequence numbers\<close>

lemma no_Close_in_sends: "Close \<notin> set (map (\<lambda>q. Send (f q)) qs)"
  by auto

text \<open>
  C6. The session sequence number is not kept modulo \<open>2 ^ 32\<close>. For a message of 8191
  bytes (65528 bits, the longest one accepted) it reaches 4294999017 at the bit of index
  38858, which is above \<open>2 ^ 32\<close>: \<open>send\<close> raises there, the run ends with
  \<open>ValueError\<close> after the SYN, the ACK and 38858 of the 65528 data packets, the last one
  carrying 4294921301, and the socket is not closed.
\<close>

theorem seq_overflow_raises:
  "let run = send_stego_msg sample_info (sample_env [sample_synack 2785015994])
               (replicate 8191 0x61) ''10.0.0.1'' ''10.0.0.2'';
       would_be = seq_trace 2785015994 0 (frombytes (replicate 8191 0x61))
   in length would_be = 65528
      \<and> would_be ! 38858 = 4294999017 \<and> \<not> seq32 (would_be ! 38858)
      \<and> snd run = Some ValueError
      \<and> length (sent (fst run)) = 2 + 38858
      \<and> map seq_of (sent (fst run)) = 2785015993 # 2785015994 # take 38858 would_be
      \<and> seq_of (last (sent (fst run))) = 4294921301
      \<and> Close \<notin> set (fst run)"
proof -
  let ?e = "sample_env [sample_synack 2785015994]"
  let ?bs = "replicate 8191 (0x61::int)"
  let ?bits = "frombytes ?bs"
  let ?tr = "seq_trace 2785015994 0 ?bits"
  let ?self = "client_at_syn ?e ''10.0.0.1'' ''10.0.0.2'' 2785015993"
  let ?run = "send_stego_msg sample_info ?e (replicate 8191 0x61) ''10.0.0.1'' ''10.0.0.2''"
  have enc: "encode_utf8 (replicate 8191 0x61) = Inr ?bs"
    using encode_utf8_ascii [of "replicate 8191 0x61"] by simp
  have c: "crc8 [0xA5, 0xFF, 0xF8] = 185" by code_simp
  have v: "build_init_seq sample_info (replicate 8191 0x61) = Inr (Some 2785015993)"
    using build_init_seq_value [OF si_ok_sample enc, of 65528] c by (simp add: sample_info_def)
  have b: "bind_ok ?e" by (simp add: sample_env_def)
  have f: "find (is_synack_reply sample_info ?self) (arrived ?e) = Some (sample_synack 2785015994)"
    by (simp add: is_synack_reply_def sample_synack_def client_at_syn_def sample_env_def
        sample_info_def randrange_def)
  have pq: "seq32 (seq_of (sample_synack 2785015994) + 1)"
    by (simp add: seq_of_def sample_synack_def seq32_def)
  have len: "length ?bits = 65528" by (simp add: length_frombytes)
  have ltr: "length ?tr = 65528" by (simp add: length_seq_trace len)
  have b1: "?bits ! (8 * 4857 + 1) = ?bs ! 4857 div 2 ^ (7 - 1) mod 2"
    by (rule frombytes_nth) simp_all
  then have bit57: "?bits ! 38857 = 1" by simp
  have b2: "?bits ! (8 * 4857 + 2) = ?bs ! 4857 div 2 ^ (7 - 2) mod 2"
    by (rule frombytes_nth) simp_all
  then have bit58: "?bits ! 38858 = 1" by simp
  have i57: "(38857::nat) < length ?bits" and i58: "(38858::nat) < length ?bits"
    by (simp_all add: len)
  have q57: "?tr ! 38857 = 4294921301"
    using seq_trace_closed0 [OF i57, of 2785015994] by (simp add: bit57)
  have q58: "?tr ! 38858 = 4294999017"
    using seq_trace_closed0 [OF i58, of 2785015994] by (simp add: bit58)
  have bad: "\<not> seq32 (?tr ! 38858)" by (simp add: q58 seq32_def)
  have good: "\<forall>j\<le>38857. seq32 (?tr ! j)"
    by (rule seq_trace_prefix_in_range [OF i57]) simp_all
  have tw: "takeWhile seq32 ?tr = take 38858 ?tr"
  proof (rule takeWhile_eq_take_P_nth)
    fix i :: nat
    assume "i < 38858"
    then have "i \<le> 38857" by simp
    with good show "seq32 (?tr ! i)" by blast
  next
    show "\<not> seq32 (?tr ! 38858)" by (rule bad)
  qed
  have ltw: "length (takeWhile seq32 ?tr) = 38858" by (simp add: tw ltr)
  have nall: "\<not> list_all seq32 ?tr"
    using takeWhile_all_iff [of seq32 ?tr] by (simp add: ltw ltr)
  have run: "?run =
      ([SocketCreate, SetReuseAddr, Bind ''10.0.0.1'' (self_curr_port ?self) True,
        Send (syn_pkt sample_info ?self)]
         @ [Send (ack_pkt sample_info ?self (seq_of (sample_synack 2785015994)))]
         @ map (\<lambda>q. Send (data_pkt sample_info ?self q)) (take 38858 ?tr),
       Some ValueError)"
    using pq nall
    by (simp only: send_trace [OF si_ok_sample b v enc] Let_def f)
      (simp add: tw)
  have syn: "seq_of (syn_pkt sample_info ?self) = 2785015993"
    by (simp add: seq_of_def syn_pkt_def mk_packet_def client_at_syn_def)
  have ack: "\<And>q. seq_of (ack_pkt sample_info ?self q) = 2785015994"
    by (simp add: seq_of_def ack_pkt_def mk_packet_def client_at_syn_def)
  have snt: "sent (fst ?run) = syn_pkt sample_info ?self
               # ack_pkt sample_info ?self (seq_of (sample_synack 2785015994))
               # map (data_pkt sample_info ?self) (take 38858 ?tr)"
    by (simp only: run fst_conv sent_append sent_map_Send) simp
  have seqs: "map seq_of (sent (fst ?run)) = 2785015993 # 2785015994 # take 38858 ?tr"
    by (simp only: snt) (simp add: syn ack seq_of_data_pkt comp_def)
  have lsn: "length (sent (fst ?run)) = 2 + 38858"
    by (simp only: snt) (simp add: ltr)
  have ne: "take 38858 ?tr \<noteq> []" using ltr by auto
  have "last (sent (fst ?run)) = data_pkt sample_info ?self (last (take 38858 ?tr))"
    using ne by (simp only: snt) (simp add: last_map)
  moreover have "last (take 38858 ?tr) = ?tr ! 38857"
    using ne by (simp add: last_conv_nth ltr)
  ultimately have lst: "seq_of (last (sent (fst ?run))) = 4294921301"
    by (simp only: seq_of_data_pkt q57)
  have ncl: "Close \<notin> set (fst ?run)"
    by (simp only: run fst_conv) auto
  have r: "snd ?run = Some ValueError" by (simp only: run snd_conv)
  show ?thesis
    unfolding Let_def using ltr q58 bad r lsn seqs lst ncl by blast
qed

end
